theory Spec2Isabelle
  imports Main "HOL-Library.Sublist"
begin

section \<open>Python strings\<close>

text \<open>
  A Python \<open>str\<close> is modelled as a \<open>string\<close>; a \<open>char\<close> stands for a code point
  below 256.  \<open>isspace\<close> is the whitespace class shared by \<open>str.strip()\<close> and by
  \<open>\s\<close> in a \<open>re\<close> pattern over \<open>str\<close>: tab, line feed, vertical tab, form feed,
  carriage return, the separators 0x1C to 0x1F, space, NEL (0x85) and the no-break
  space (0xA0).
\<close>

definition nl :: char where
  "nl = CHR 0x0A"

definition dq :: char where
  "dq = CHR 0x22"

definition sq :: char where
  "sq = CHR 0x27"

definition isspace :: "char \<Rightarrow> bool" where
  "isspace c = (c \<in> set [CHR 0x09, CHR 0x0A, CHR 0x0B, CHR 0x0C, CHR 0x0D,
                           CHR 0x1C, CHR 0x1D, CHR 0x1E, CHR 0x1F, CHR 0x20,
                           CHR 0x85, CHR 0xA0])"

definition lstrip :: "string \<Rightarrow> string" where
  "lstrip s = dropWhile isspace s"

definition rstrip :: "string \<Rightarrow> string" where
  "rstrip s = rev (dropWhile isspace (rev s))"

text \<open>\<open>s.strip()\<close>: leading and trailing whitespace removed.\<close>

definition strip :: "string \<Rightarrow> string" where
  "strip s = rstrip (lstrip s)"

text \<open>
  \<open>s.split(sep)\<close> for a non-empty separator: the text is cut at each occurrence of
  \<open>sep\<close>, found from left to right without overlap; the result always has at least
  one piece.  (Python raises \<open>ValueError\<close> on an empty separator; the program only
  passes the literals \<open>"\n\n"\<close> and \<open>"\n"\<close>.)
\<close>

function py_split :: "string \<Rightarrow> string \<Rightarrow> string list" where
  "py_split sep [] = [[]]"
| "py_split sep (c # cs) =
     (if sep \<noteq> [] \<and> prefix sep (c # cs)
      then [] # py_split sep (drop (length sep) (c # cs))
      else (case py_split sep cs of
              [] \<Rightarrow> [[c]]
            | p # ps \<Rightarrow> (c # p) # ps))"
  by pat_completeness auto
termination
  by (relation "measure (\<lambda>(sep, s). length s)") (auto simp: neq_Nil_conv)

text \<open>
  \<open>s.replace(old, new)\<close>: every occurrence of \<open>old\<close>, found from left to right
  without overlap, is replaced by \<open>new\<close>.  With an empty \<open>old\<close> Python puts \<open>new\<close>
  before every character and at the end.
\<close>

function py_replace :: "string \<Rightarrow> string \<Rightarrow> string \<Rightarrow> string" where
  "py_replace old new [] = (if old = [] then new else [])"
| "py_replace old new (c # cs) =
     (if old = [] then new @ c # py_replace old new cs
      else if prefix old (c # cs)
      then new @ py_replace old new (drop (length old) (c # cs))
      else c # py_replace old new cs)"
  by pat_completeness auto
termination
  by (relation "measure (\<lambda>(old, new, s). length s)") (auto simp: neq_Nil_conv)

text \<open>\<open>str(n)\<close> for an integer: decimal digits, with a minus sign when negative.\<close>

definition digit_char :: "nat \<Rightarrow> char" where
  "digit_char d = ''0123456789'' ! d"

function str_nat :: "nat \<Rightarrow> string" where
  "str_nat n = (if n < 10 then [digit_char n] else str_nat (n div 10) @ [digit_char (n mod 10)])"
  by pat_completeness auto
termination
  by (relation "measure (\<lambda>n. n)") auto

declare str_nat.simps [simp del]

definition str_int :: "int \<Rightarrow> string" where
  "str_int i = (if i < 0 then CHR ''-'' # str_nat (nat (- i)) else str_nat (nat i))"

section \<open>Exceptions\<close>

text \<open>
  The subclasses of \<open>Exception\<close> that the program raises or meets.  \<open>OtherError\<close>
  stands for any further exception of an external library (the HTTP client, the PDF
  reader, the JSON decoder), by its text.
\<close>

datatype exc =
    FileNotFoundError string
  | ValueError string
  | JSONDecodeError
  | AttributeError
  | TypeError
  | IndexError
  | UnboundLocalError
  | OtherError string

section \<open>pdf_extractor.py\<close>

text \<open>
  The comprehension \<open>[p.strip() for p in pieces if p.strip()]\<close>: a piece is kept
  when its stripped form is non-empty, and the stripped form is stored.
\<close>

definition strip_nonempty :: "string list \<Rightarrow> string list" where
  "strip_nonempty pieces = map strip (filter (\<lambda>p. strip p \<noteq> []) pieces)"

text \<open>
  Lines 34 to 45: the list \<open>paragraphs\<close> that \<open>extract_paragraph\<close> computes from the
  page text.  Strategy 1 splits on a double newline; when that gives at most one
  paragraph, strategy 2 splits on a single newline.
\<close>

definition paragraphs :: "string \<Rightarrow> string list" where
  "paragraphs full_text =
     (let paragraphs = strip_nonempty (py_split [nl, nl] full_text)
      in if length paragraphs \<le> 1
         then (let raw_lines = strip_nonempty (py_split [nl] full_text) in raw_lines)
         else paragraphs)"

text \<open>
  The dictionary that \<open>extract_paragraph\<close> returns.  The measured wall-clock time is
  a float read from the system clock; it is carried as an opaque value.
\<close>

record 't extraction_result =
  result_text :: string
  result_page :: int
  result_paragraph_index :: int
  result_length :: nat
  result_extraction_time :: 't

text \<open>
  The file system and the PDF library are external: \<open>files pdf_path\<close> is \<open>None\<close>
  when \<open>os.path.exists\<close> is false, and otherwise what \<open>PdfReader\<close> gives, either an
  exception or the texts that \<open>extract_text\<close> returns for the pages, in order.
\<close>

type_synonym pdf_files = "string \<Rightarrow> (exc + string list) option"

definition page_error_msg :: "int \<Rightarrow> string" where
  "page_error_msg page_number = ''Page '' @ str_int page_number @ '' out of range.''"

definition paragraph_error_msg :: "int \<Rightarrow> int \<Rightarrow> nat \<Rightarrow> string" where
  "paragraph_error_msg paragraph_index page_number found =
     ''Paragraph index '' @ str_int paragraph_index @ '' out of range on page '' @
     str_int page_number @ ''. Found '' @ str_nat found @ '' paragraphs.''"

text \<open>
  \<open>extract_paragraph\<close>.  The handler \<open>except Exception as e: raise e\<close> logs and
  raises the same exception again, so every \<open>Inl\<close> below leaves the function as it is.
\<close>

definition extract_paragraph ::
  "pdf_files \<Rightarrow> 't \<Rightarrow> string \<Rightarrow> int \<Rightarrow> int \<Rightarrow> exc + 't extraction_result" where
  "extract_paragraph files elapsed pdf_path page_number paragraph_index =
     (case files pdf_path of
        None \<Rightarrow> Inl (FileNotFoundError (''PDF not found at '' @ pdf_path))
      | Some reader \<Rightarrow>
          (case reader of
             Inl e \<Rightarrow> Inl e
           | Inr pages \<Rightarrow>
               (let internal_page_idx = page_number - 1
                in if internal_page_idx < 0 \<or> internal_page_idx \<ge> int (length pages)
                   then Inl (ValueError (page_error_msg page_number))
                   else
                     (let full_text = pages ! nat internal_page_idx;
                          paragraphs = paragraphs full_text
                      in if paragraph_index < 0 \<or> paragraph_index \<ge> int (length paragraphs)
                         then Inl (ValueError
                                (paragraph_error_msg paragraph_index page_number
                                   (length paragraphs)))
                         else
                           (let target_text = paragraphs ! nat paragraph_index
                            in Inr \<lparr>result_text = target_text,
                                    result_page = page_number,
                                    result_paragraph_index = paragraph_index,
                                    result_length = length target_text,
                                    result_extraction_time = elapsed\<rparr>)))))"

section \<open>The language-model endpoint\<close>

text \<open>
  \<open>client.chat.completions.create\<close> is external.  A request carries the model name,
  the turns (role and content) and whether JSON mode is asked for; the sampling
  temperature, the constant 0.2 in both callers, is not part of the model.  The call
  either raises or returns a response, of which the program reads only
  \<open>choices[i].message.content\<close>: the response is the list of these contents, each a
  string or \<open>None\<close>.
\<close>

record chat_request =
  model :: string
  messages :: "(string \<times> string) list"
  json_mode :: bool

type_synonym chat_create = "chat_request \<Rightarrow> exc + string option list"

text \<open>\<open>response.choices[0].message.content\<close>: an empty list of choices raises.\<close>

definition first_content :: "string option list \<Rightarrow> exc + string option" where
  "first_content choices = (case choices of [] \<Rightarrow> Inl IndexError | c # _ \<Rightarrow> Inr c)"

section \<open>transcript_service.py\<close>

definition clean_system_prompt :: string where
  "clean_system_prompt =
     ''You are a helpful editor. Your task is to clean up the following text. '' @
     ''Fix grammar, remove formatting artifacts, and ensure it reads smoothly as a '' @
     ''transcript. Do not summarize; keep the full content.''"

text \<open>
  The body of the \<open>try\<close> in \<open>clean_transcript\<close>: the call, the read of the first
  content, and \<open>len(cleaned_text)\<close>, which raises \<open>TypeError\<close> on \<open>None\<close>.
\<close>

definition clean_transcript_try :: "chat_create \<Rightarrow> string \<Rightarrow> string \<Rightarrow> exc + string" where
  "clean_transcript_try create model_name raw_text =
     (case create \<lparr>model = model_name,
                    messages = [(''system'', clean_system_prompt), (''user'', raw_text)],
                    json_mode = False\<rparr> of
        Inl e \<Rightarrow> Inl e
      | Inr choices \<Rightarrow>
          (case first_content choices of
             Inl e \<Rightarrow> Inl e
           | Inr None \<Rightarrow> Inl TypeError
           | Inr (Some cleaned_text) \<Rightarrow> Inr cleaned_text))"

text \<open>\<open>clean_transcript\<close>: \<open>except Exception\<close> logs and returns \<open>raw_text\<close>.\<close>

definition clean_transcript :: "chat_create \<Rightarrow> string \<Rightarrow> string \<Rightarrow> exc + string" where
  "clean_transcript create model_name raw_text =
     (case clean_transcript_try create model_name raw_text of
        Inl e \<Rightarrow> Inr raw_text
      | Inr cleaned_text \<Rightarrow> Inr cleaned_text)"

section \<open>mindmap_service.py\<close>

text \<open>
  What \<open>json.loads\<close> returns: \<open>None\<close>, a bool, a number, a \<open>str\<close>, a list or a
  \<open>dict\<close>.  The program never looks inside a number.  A \<open>dict\<close> is an association
  list whose first binding of a key is the one \<open>get\<close> finds.
\<close>

datatype json =
    JNull
  | JBool bool
  | JNum int
  | JStr string
  | JArr "json list"
  | JObj "(string \<times> json) list"

text \<open>\<open>d.get(key, default)\<close>.\<close>

definition dict_get :: "(string \<times> json) list \<Rightarrow> string \<Rightarrow> json \<Rightarrow> json" where
  "dict_get d key dflt = (case map_of d key of None \<Rightarrow> dflt | Some v \<Rightarrow> v)"

text \<open>
  \<open>re.sub(r"```json\s*", "", content)\<close>: every occurrence of the opening fence with
  the tag \<open>json\<close> is removed together with all whitespace after it (\<open>\s*\<close> is greedy),
  and the scan goes on behind the match.
\<close>

function sub_fence_json :: "string \<Rightarrow> string" where
  "sub_fence_json [] = []"
| "sub_fence_json (c # cs) =
     (if prefix ''```json'' (c # cs)
      then sub_fence_json (dropWhile isspace (drop 7 (c # cs)))
      else c # sub_fence_json cs)"
  by pat_completeness auto
termination
  by (relation "measure length") (auto simp: less_Suc_eq_le intro: le_trans [OF length_dropWhile_le])

text \<open>
  \<open>re.sub(r"```\s*$", "", content)\<close>: without the MULTILINE flag \<open>$\<close> matches at
  the end of the text or before a newline that ends it, so the pattern matches at the
  leftmost fence that only whitespace follows, and the greedy \<open>\s*\<close> takes the match
  to the end of the text.
\<close>

fun sub_fence_end :: "string \<Rightarrow> string" where
  "sub_fence_end [] = []"
| "sub_fence_end (c # cs) =
     (if prefix ''```'' (c # cs) \<and> dropWhile isspace (drop 3 (c # cs)) = []
      then []
      else c # sub_fence_end cs)"

definition clean_json_response :: "string \<Rightarrow> string" where
  "clean_json_response content =
     (let content = sub_fence_json content;
          content = sub_fence_end content
      in strip content)"

definition mindmap_system_prompt :: string where
  "mindmap_system_prompt =
     ''You are a helpful assistant. Analyze the provided text and extract the main topic '' @
     ''and subtopics. Output the result strictly as a valid JSON object with this structure: '' @
     ''{'' @ [dq] @ ''root'' @ [dq] @ '': '' @ [dq] @ ''Main Topic Title'' @ [dq] @ '', '' @
     [dq] @ ''children'' @ [dq] @ '': [{'' @ [dq] @ ''name'' @ [dq] @ '': '' @ [dq] @
     ''Subtopic'' @ [dq] @ '', '' @ [dq] @ ''children'' @ [dq] @ '': []}]}. '' @
     ''Do not add any markdown formatting or explanation. Just the JSON.''"

text \<open>The fallback node returned when the response is not JSON.\<close>

definition error_tree :: json where
  "error_tree =
     JObj [(''root'', JStr ''Error Parsing JSON''),
           (''children'', JArr [JObj [(''name'', JStr ''Raw Text''), (''children'', JArr [])]])]"

text \<open>
  The two handlers of \<open>generate_mindmap_json\<close>.  \<open>except json.JSONDecodeError\<close> logs
  the local \<open>content\<close> and returns the fallback node; when the exception came before
  \<open>content\<close> was assigned, reading it raises \<open>UnboundLocalError\<close>.  Every other
  exception is logged and raised again.
\<close>

definition mindmap_handlers :: "bool \<Rightarrow> exc \<Rightarrow> exc + json" where
  "mindmap_handlers content_bound e =
     (if e = JSONDecodeError
      then (if content_bound then Inr error_tree else Inl UnboundLocalError)
      else Inl e)"

text \<open>
  \<open>generate_mindmap_json\<close>.  \<open>json.loads\<close> is external: a function from the text to
  the decoded value or the exception it raises.  \<open>content[:100]\<close> raises \<open>TypeError\<close>
  when the content is \<open>None\<close>.
\<close>

definition generate_mindmap_json ::
  "chat_create \<Rightarrow> (string \<Rightarrow> exc + json) \<Rightarrow> string \<Rightarrow> string \<Rightarrow> exc + json" where
  "generate_mindmap_json create json_loads model_name transcript_text =
     (case create \<lparr>model = model_name,
                    messages = [(''system'', mindmap_system_prompt), (''user'', transcript_text)],
                    json_mode = True\<rparr> of
        Inl e \<Rightarrow> mindmap_handlers False e
      | Inr choices \<Rightarrow>
          (case first_content choices of
             Inl e \<Rightarrow> mindmap_handlers False e
           | Inr None \<Rightarrow> mindmap_handlers True TypeError
           | Inr (Some content) \<Rightarrow>
               (let content = clean_json_response content
                in case json_loads content of
                     Inl e \<Rightarrow> mindmap_handlers True e
                   | Inr mindmap_data \<Rightarrow> Inr mindmap_data)))"

subsection \<open>json_to_mermaid (inside save_mindmap_html)\<close>

text \<open>\<open>f"node{node_id}"\<close>.  The counter starts at 0 and is only ever incremented.\<close>

definition node_name :: "nat \<Rightarrow> string" where
  "node_name node_id = ''node'' @ str_nat node_id"

text \<open>The two f-strings that build a line.\<close>

definition node_decl :: "string \<Rightarrow> string \<Rightarrow> string" where
  "node_decl current_id label = ''    '' @ current_id @ ''['' @ [dq] @ label @ [dq] @ '']''"

definition edge_decl :: "string \<Rightarrow> string \<Rightarrow> string \<Rightarrow> string" where
  "edge_decl parent_id current_id label =
     ''    '' @ parent_id @ '' --> '' @ current_id @ ''['' @ [dq] @ label @ [dq] @ '']''"

text \<open>\<open>if parent_id: ... else: ...\<close>; \<open>None\<close> and the empty string are false.\<close>

definition decl_line :: "string option \<Rightarrow> string \<Rightarrow> string \<Rightarrow> string" where
  "decl_line parent_id current_id label =
     (case parent_id of
        None \<Rightarrow> node_decl current_id label
      | Some p \<Rightarrow> if p = [] then node_decl current_id label else edge_decl p current_id label)"

text \<open>\<open>node.get("name", node.get("root", "Topic"))\<close>.\<close>

definition label_value :: "(string \<times> json) list \<Rightarrow> json" where
  "label_value d = dict_get d ''name'' (dict_get d ''root'' (JStr ''Topic''))"

text \<open>Line 97: only a \<open>str\<close> has the method \<open>replace\<close>.\<close>

definition sanitized_label :: "(string \<times> json) list \<Rightarrow> exc + string" where
  "sanitized_label d =
     (case label_value d of
        JStr s \<Rightarrow> Inr (py_replace [dq] [sq] s)
      | _ \<Rightarrow> Inl AttributeError)"

text \<open>
  What \<open>for child in node.get("children", [])\<close> runs over.  A list gives its
  elements.  \<open>None\<close>, a bool and a number are not iterable.  A \<open>str\<close> gives its
  characters and a \<open>dict\<close> its keys: the loop does nothing when there are none, and
  otherwise its first element is a \<open>str\<close>, on which the recursive call raises
  \<open>AttributeError\<close> at \<open>node.get\<close>.
\<close>

definition loop_children :: "(string \<times> json) list \<Rightarrow> exc + json list" where
  "loop_children d =
     (case dict_get d ''children'' (JArr []) of
        JArr cs \<Rightarrow> Inr cs
      | JStr s \<Rightarrow> if s = [] then Inr [] else Inl AttributeError
      | JObj ks \<Rightarrow> if ks = [] then Inr [] else Inl AttributeError
      | _ \<Rightarrow> Inl TypeError)"

lemma loop_children_size:
  "loop_children d = Inr cs \<Longrightarrow> size_list size cs < size (JObj d)"
proof (cases "map_of d ''children''")
  case None
  assume "loop_children d = Inr cs"
  with None show ?thesis
    by (simp add: loop_children_def dict_get_def)
next
  case (Some v)
  assume r: "loop_children d = Inr cs"
  from Some have "(''children'', v) \<in> set d"
    by (rule map_of_SomeD)
  then have "size v \<le> size_list (size_prod (\<lambda>x. 0) size) d"
    by (induction d) auto
  moreover from r Some have "size_list size cs \<le> size v"
    by (cases v) (auto simp: loop_children_def dict_get_def split: if_splits)
  ultimately show ?thesis
    by simp
qed

text \<open>
  \<open>json_to_mermaid(node, parent_id, node_id)\<close> and its loop over the children, which
  carries \<open>lines\<close> and \<open>child_id_counter\<close>.  A node that is not a \<open>dict\<close> has no
  method \<open>get\<close>.
\<close>

function (sequential)
  json_to_mermaid :: "json \<Rightarrow> string option \<Rightarrow> nat \<Rightarrow> exc + (string list \<times> nat)" and
  children_loop :: "json list \<Rightarrow> string \<Rightarrow> string list \<Rightarrow> nat \<Rightarrow> exc + (string list \<times> nat)"
where
  "json_to_mermaid (JObj d) parent_id node_id =
     (let current_id = node_name node_id
      in case sanitized_label d of
           Inl e \<Rightarrow> Inl e
         | Inr label \<Rightarrow>
             (let lines = [decl_line parent_id current_id label];
                  child_id_counter = node_id + 1
              in case loop_children d of
                   Inl e \<Rightarrow> Inl e
                 | Inr cs \<Rightarrow> children_loop cs current_id lines child_id_counter))"
| "json_to_mermaid _ parent_id node_id = Inl AttributeError"
| "children_loop [] current_id lines child_id_counter = Inr (lines, child_id_counter)"
| "children_loop (child # rest) current_id lines child_id_counter =
     (case json_to_mermaid child (Some current_id) child_id_counter of
        Inl e \<Rightarrow> Inl e
      | Inr (child_lines, next_id) \<Rightarrow> children_loop rest current_id (lines @ child_lines) next_id)"
  by pat_completeness auto
termination
proof (relation "measure (\<lambda>x. case x of
                    Inl (node, _, _) \<Rightarrow> 2 * size node
                  | Inr (cs, _, _, _) \<Rightarrow> 2 * size_list size cs + 1)", goal_cases)
  case (2 d parent_id node_id x xa xb xc xd)
  then show ?case
    using loop_children_size [of d xd] by simp
qed simp_all

text \<open>\<open>mermaid_lines, _ = json_to_mermaid(mindmap_json)\<close> and the joined graph text.\<close>

definition mermaid_lines :: "json \<Rightarrow> exc + string list" where
  "mermaid_lines mindmap_json =
     (case json_to_mermaid mindmap_json None 0 of
        Inl e \<Rightarrow> Inl e
      | Inr (lines, _) \<Rightarrow> Inr lines)"

fun join_lines :: "string list \<Rightarrow> string" where
  "join_lines [] = []"
| "join_lines [l] = l"
| "join_lines (l # ls) = l @ [nl] @ join_lines ls"

definition mermaid_graph :: "json \<Rightarrow> exc + string" where
  "mermaid_graph mindmap_json =
     (case mermaid_lines mindmap_json of
        Inl e \<Rightarrow> Inl e
      | Inr lines \<Rightarrow> Inr (''graph TD'' @ [nl] @ join_lines lines))"

subsection \<open>tests/test_mindmap.py\<close>

text \<open>The tree \<open>dummy_json\<close> of \<open>test_html_generation\<close>.\<close>

definition dummy_json :: json where
  "dummy_json =
     JObj [(''root'', JStr ''Test Topic''),
           (''children'',
            JArr [JObj [(''name'', JStr ''Subtopic A''), (''children'', JArr [])],
                  JObj [(''name'', JStr ''Subtopic B''), (''children'', JArr [])]])]"

section \<open>cli_mindmap.py\<close>

text \<open>
  Lines 46 to 48 and 59 to 61 of \<open>main\<close>: the names of the transcript and of the JSON
  file, from \<open>args.output\<close>.  The visual map is written to \<open>args.output\<close> itself, the
  path that \<open>save_mindmap_html\<close> returns.
\<close>

definition txt_filename :: "string \<Rightarrow> string" where
  "txt_filename output =
     (let txt_filename = py_replace ''.html'' ''.txt'' output
      in if txt_filename = output then txt_filename @ ''.txt'' else txt_filename)"

definition json_filename :: "string \<Rightarrow> string" where
  "json_filename output =
     (let json_filename = py_replace ''.html'' ''.json'' output
      in if json_filename = output then json_filename @ ''.json'' else json_filename)"

definition output_path :: "string \<Rightarrow> string" where
  "output_path output = output"

section \<open>Notions of the specification\<close>

text \<open>
  The segmentation as the specification words it.  A blank-line boundary is a
  maximal run of two or more newline characters; the page text is cut at every such
  run, each chunk is trimmed, and the empty chunks are discarded: these are the blocks.
\<close>

function split_blank_lines :: "string \<Rightarrow> string list" where
  "split_blank_lines [] = [[]]"
| "split_blank_lines (c # cs) =
     (if c = nl \<and> cs \<noteq> [] \<and> hd cs = nl
      then [] # split_blank_lines (dropWhile (\<lambda>x. x = nl) cs)
      else (case split_blank_lines cs of
              [] \<Rightarrow> [[c]]
            | p # ps \<Rightarrow> (c # p) # ps))"
  by pat_completeness auto
termination
  by (relation "measure length") (auto simp: less_Suc_eq_le length_dropWhile_le)

definition blank_line_blocks :: "string \<Rightarrow> string list" where
  "blank_line_blocks full_page_text =
     filter (\<lambda>chunk. chunk \<noteq> []) (map strip (split_blank_lines full_page_text))"

text \<open>
  The lines of the page text, cut at every single newline, and the trimmed lines that
  are not empty.
\<close>

fun text_lines :: "string \<Rightarrow> string list" where
  "text_lines [] = [[]]"
| "text_lines (c # cs) =
     (if c = nl then [] # text_lines cs
      else (case text_lines cs of [] \<Rightarrow> [[c]] | l # ls \<Rightarrow> (c # l) # ls))"

definition nonempty_trimmed_lines :: "string \<Rightarrow> string list" where
  "nonempty_trimmed_lines full_page_text =
     filter (\<lambda>line. line \<noteq> []) (map strip (text_lines full_page_text))"

text \<open>
  A topic tree in the wire format: a \<open>dict\<close> whose label, under \<open>name\<close> or else
  under \<open>root\<close>, is a string when present, and whose \<open>children\<close>, when present, is
  a list of topic trees.  \<open>count_nodes\<close> is the number of nodes of such a tree.
\<close>

lemma map_of_size: "map_of d key = Some v \<Longrightarrow> size v < size (JObj d)"
proof -
  assume "map_of d key = Some v"
  then have "(key, v) \<in> set d"
    by (rule map_of_SomeD)
  then have "size v \<le> size_list (size_prod (\<lambda>x. 0) size) d"
    by (induction d) auto
  then show ?thesis
    by simp
qed

function (sequential) topic_tree :: "json \<Rightarrow> bool" and topic_trees :: "json list \<Rightarrow> bool" where
  "topic_tree (JObj d) =
     ((case label_value d of JStr label \<Rightarrow> True | _ \<Rightarrow> False) \<and>
      (case map_of d ''children'' of
         None \<Rightarrow> True
       | Some (JArr cs) \<Rightarrow> topic_trees cs
       | Some _ \<Rightarrow> False))"
| "topic_tree _ = False"
| "topic_trees [] = True"
| "topic_trees (c # cs) = (topic_tree c \<and> topic_trees cs)"
  by pat_completeness auto
termination
proof (relation "measure (\<lambda>x. case x of
                    Inl node \<Rightarrow> 2 * size node
                  | Inr cs \<Rightarrow> 2 * size_list size cs + 1)", goal_cases)
  case (2 d x2 x5)
  then show ?case
    using map_of_size [of d "''children''" "JArr x5"] by simp
qed simp_all

function (sequential) count_nodes :: "json \<Rightarrow> nat" and count_nodes_list :: "json list \<Rightarrow> nat" where
  "count_nodes (JObj d) =
     (case map_of d ''children'' of
        Some (JArr cs) \<Rightarrow> 1 + count_nodes_list cs
      | _ \<Rightarrow> 1)"
| "count_nodes _ = 0"
| "count_nodes_list [] = 0"
| "count_nodes_list (c # cs) = count_nodes c + count_nodes_list cs"
  by pat_completeness auto
termination
proof (relation "measure (\<lambda>x. case x of
                    Inl node \<Rightarrow> 2 * size node
                  | Inr cs \<Rightarrow> 2 * size_list size cs + 1)", goal_cases)
  case (2 d x2 x5)
  then show ?case
    using map_of_size [of d "''children''" "JArr x5"] by simp
qed simp_all

text \<open>
  A declaration of the diagram: the identifier of the parent as it is written on the
  line, if any, the number of the declared node and its label.
\<close>

record diagram_decl =
  decl_parent :: "string option"
  decl_id :: nat
  decl_label :: string

definition render_decl :: "diagram_decl \<Rightarrow> string" where
  "render_decl decl =
     decl_line (decl_parent decl) (node_name (decl_id decl)) (decl_label decl)"

text \<open>
  A line whose quoted string is opened and closed: some text without a double quote,
  the opening quote, a label without a double quote, the closing quote and the
  closing bracket.
\<close>

definition well_quoted :: "string \<Rightarrow> bool" where
  "well_quoted line =
     (\<exists>head label. line = head @ [dq] @ label @ [dq] @ '']'' \<and>
        dq \<notin> set head \<and> dq \<notin> set label)"

text \<open>A parent identifier, when there is one, without a double quote.\<close>

definition quote_free :: "string option \<Rightarrow> bool" where
  "quote_free parent_id = (case parent_id of None \<Rightarrow> True | Some p \<Rightarrow> dq \<notin> set p)"

section \<open>Segmentation: the code against the specification\<close>

lemma strip_nonempty_filter_map:
  "strip_nonempty pieces = filter (\<lambda>p. p \<noteq> []) (map strip pieces)"
  by (simp add: strip_nonempty_def filter_map comp_def)

lemma strip_nonempty_Cons:
  "strip_nonempty (p # ps) = (if strip p \<noteq> [] then strip p # strip_nonempty ps else strip_nonempty ps)"
  by (simp add: strip_nonempty_def)

lemma isspace_nl: "isspace nl"
  by (simp add: isspace_def nl_def)

lemma strip_Nil: "strip [] = []"
  by (simp add: strip_def lstrip_def rstrip_def)

lemma strip_nl_Cons: "strip (nl # p) = strip p"
  by (simp add: strip_def lstrip_def isspace_nl)

lemma py_split_not_Nil: "py_split sep s \<noteq> []"
  by (induction sep s rule: py_split.induct) (auto split: list.splits)

lemma split_blank_lines_not_Nil: "split_blank_lines s \<noteq> []"
  by (induction s rule: split_blank_lines.induct) (auto split: list.splits)

lemma py_split2_nl_nl: "py_split [nl, nl] (nl # nl # s) = [] # py_split [nl, nl] s"
  by simp

lemma py_split2_step:
  "\<not> (c = nl \<and> cs \<noteq> [] \<and> hd cs = nl) \<Longrightarrow>
   py_split [nl, nl] (c # cs) = (c # hd (py_split [nl, nl] cs)) # tl (py_split [nl, nl] cs)"
  using py_split_not_Nil [of "[nl, nl]" cs]
  by (cases cs) (auto split: list.splits)

lemma split_blank_lines_nl_nl:
  "split_blank_lines (nl # nl # s) = [] # split_blank_lines (dropWhile (\<lambda>x. x = nl) s)"
  by simp

lemma split_blank_lines_step:
  "\<not> (c = nl \<and> cs \<noteq> [] \<and> hd cs = nl) \<Longrightarrow>
   split_blank_lines (c # cs) = (c # hd (split_blank_lines cs)) # tl (split_blank_lines cs)"
  using split_blank_lines_not_Nil [of cs]
  by (cases cs) (auto split: list.splits)

lemma strip_nonempty_hd_tl_nl:
  "xs \<noteq> [] \<Longrightarrow> strip_nonempty ((nl # hd xs) # tl xs) = strip_nonempty xs"
  by (cases xs) (simp_all add: strip_nonempty_Cons strip_nl_Cons)

lemma strip_nonempty_Nil_Cons: "strip_nonempty ([] # xs) = strip_nonempty xs"
  by (simp add: strip_nonempty_Cons strip_Nil)

lemma strip_nonempty_py_split2_nl:
  "strip_nonempty (py_split [nl, nl] (nl # s)) = strip_nonempty (py_split [nl, nl] s)"
proof (induction s rule: length_induct)
  case (1 s)
  show ?case
  proof (cases "s \<noteq> [] \<and> hd s = nl")
    case True
    then obtain s' where s: "s = nl # s'"
      by (cases s) auto
    have "strip_nonempty (py_split [nl, nl] (nl # s')) = strip_nonempty (py_split [nl, nl] s')"
      using "1.IH" s by simp
    then show ?thesis
      unfolding s py_split2_nl_nl strip_nonempty_Nil_Cons by simp
  next
    case False
    then have "py_split [nl, nl] (nl # s) =
               (nl # hd (py_split [nl, nl] s)) # tl (py_split [nl, nl] s)"
      by (intro py_split2_step) simp
    then show ?thesis
      by (simp only: strip_nonempty_hd_tl_nl [OF py_split_not_Nil])
  qed
qed

lemma strip_nonempty_blank_step:
  "\<not> (s \<noteq> [] \<and> hd s = nl) \<Longrightarrow>
   strip_nonempty (split_blank_lines (nl # s)) = strip_nonempty (split_blank_lines s)"
proof -
  assume "\<not> (s \<noteq> [] \<and> hd s = nl)"
  then have "split_blank_lines (nl # s) =
             (nl # hd (split_blank_lines s)) # tl (split_blank_lines s)"
    by (intro split_blank_lines_step) simp
  then show ?thesis
    by (simp only: strip_nonempty_hd_tl_nl [OF split_blank_lines_not_Nil])
qed

lemma dropWhile_nl_id: "\<not> (s \<noteq> [] \<and> hd s = nl) \<Longrightarrow> dropWhile (\<lambda>x. x = nl) s = s"
  by (cases s) auto

lemma strip_nonempty_blank_nl_nl:
  "strip_nonempty (split_blank_lines (nl # nl # s)) = strip_nonempty (split_blank_lines (nl # s))"
proof (cases "s \<noteq> [] \<and> hd s = nl")
  case True
  then obtain s' where s: "s = nl # s'"
    by (cases s) auto
  show ?thesis
    unfolding s split_blank_lines_nl_nl strip_nonempty_Nil_Cons by simp
next
  case False
  have "strip_nonempty (split_blank_lines (nl # nl # s)) = strip_nonempty (split_blank_lines s)"
    unfolding split_blank_lines_nl_nl strip_nonempty_Nil_Cons dropWhile_nl_id [OF False] ..
  also have "\<dots> = strip_nonempty (split_blank_lines (nl # s))"
    using strip_nonempty_blank_step [OF False] by (rule sym)
  finally show ?thesis .
qed

lemma strip_nonempty_blank_nl:
  "strip_nonempty (split_blank_lines (nl # s)) = strip_nonempty (split_blank_lines s)"
proof (cases "s \<noteq> [] \<and> hd s = nl")
  case False
  then show ?thesis
    by (rule strip_nonempty_blank_step)
next
  case True
  then obtain s' where s: "s = nl # s'"
    by (cases s) auto
  show ?thesis
    unfolding s by (rule strip_nonempty_blank_nl_nl)
qed

lemma strip_nonempty_blank_dropWhile:
  "strip_nonempty (split_blank_lines (dropWhile (\<lambda>x. x = nl) s)) =
   strip_nonempty (split_blank_lines s)"
proof (induction s)
  case Nil
  show ?case by simp
next
  case (Cons c s)
  show ?case
  proof (cases "c = nl")
    case True
    have "dropWhile (\<lambda>x. x = nl) (c # s) = dropWhile (\<lambda>x. x = nl) s"
      using True by simp
    then show ?thesis
      using Cons True by (simp only: strip_nonempty_blank_nl)
  next
    case False
    then have "dropWhile (\<lambda>x. x = nl) (c # s) = c # s"
      by simp
    then show ?thesis by (simp only:)
  qed
qed

lemma strip_nonempty_hd_tl_eq:
  assumes "xs \<noteq> []" "ys \<noteq> []" "hd xs = hd ys"
    "strip_nonempty (tl xs) = strip_nonempty (tl ys)"
  shows "strip_nonempty xs = strip_nonempty ys"
  using assms by (cases xs; cases ys) (simp_all add: strip_nonempty_Cons)

lemma split2_vs_blank:
  "hd (py_split [nl, nl] s) = hd (split_blank_lines s) \<and>
   strip_nonempty (tl (py_split [nl, nl] s)) = strip_nonempty (tl (split_blank_lines s))"
proof (induction s rule: length_induct)
  case (1 s)
  show ?case
  proof (cases s)
    case Nil
    then show ?thesis by simp
  next
    case (Cons c cs)
    show ?thesis
    proof (cases "c = nl \<and> cs \<noteq> [] \<and> hd cs = nl")
      case True
      then obtain cs' where cs: "cs = nl # cs'" and c: "c = nl"
        by (cases cs) auto
      have "length cs' < length s"
        using Cons cs by simp
      with "1.IH" have "hd (py_split [nl, nl] cs') = hd (split_blank_lines cs')"
        and "strip_nonempty (tl (py_split [nl, nl] cs')) = strip_nonempty (tl (split_blank_lines cs'))"
        by blast+
      then have "strip_nonempty (py_split [nl, nl] cs') = strip_nonempty (split_blank_lines cs')"
        by (rule strip_nonempty_hd_tl_eq [OF py_split_not_Nil split_blank_lines_not_Nil])
      then have "strip_nonempty (py_split [nl, nl] cs') =
                 strip_nonempty (split_blank_lines (dropWhile (\<lambda>x. x = nl) cs'))"
        by (simp only: strip_nonempty_blank_dropWhile)
      then show ?thesis
        unfolding Cons cs c py_split2_nl_nl split_blank_lines_nl_nl by simp
    next
      case False
      have "length cs < length s"
        using Cons by simp
      with "1.IH" have "hd (py_split [nl, nl] cs) = hd (split_blank_lines cs)"
        and "strip_nonempty (tl (py_split [nl, nl] cs)) = strip_nonempty (tl (split_blank_lines cs))"
        by blast+
      then show ?thesis
        unfolding Cons py_split2_step [OF False] split_blank_lines_step [OF False] by simp
    qed
  qed
qed

lemma strip_nonempty_split2_eq_blocks:
  "strip_nonempty (py_split [nl, nl] s) = blank_line_blocks s"
proof -
  have "strip_nonempty (py_split [nl, nl] s) = strip_nonempty (split_blank_lines s)"
    using split2_vs_blank [of s]
    by (blast intro: strip_nonempty_hd_tl_eq [OF py_split_not_Nil split_blank_lines_not_Nil])
  then show ?thesis
    by (simp add: blank_line_blocks_def strip_nonempty_filter_map)
qed

lemma py_split1_eq_text_lines: "py_split [nl] s = text_lines s"
  by (induction s) simp_all

lemma strip_nonempty_split1_eq_lines:
  "strip_nonempty (py_split [nl] s) = nonempty_trimmed_lines s"
  by (simp add: py_split1_eq_text_lines nonempty_trimmed_lines_def strip_nonempty_filter_map)

text \<open>
  C4.  A page text with two or more blocks separated by blank-line boundaries (runs
  of two or more newlines) is segmented by strategy 1, the split on double newlines
  with trimming and without the empty chunks, and the paragraphs are exactly the
  blocks, so there are as many paragraphs as blocks.
\<close>

theorem paragraphs_blank_line_blocks:
  "2 \<le> length (blank_line_blocks full_text) \<Longrightarrow>
   paragraphs full_text = strip_nonempty (py_split [nl, nl] full_text) \<and>
   paragraphs full_text = blank_line_blocks full_text \<and>
   length (paragraphs full_text) = length (blank_line_blocks full_text)"
  by (simp add: paragraphs_def Let_def strip_nonempty_split2_eq_blocks)

theorem paragraphs_blank_line_blocks_witness:
  "2 \<le> length (blank_line_blocks (''Para one.'' @ [nl, nl, nl] @ ''Para two.'')) \<and>
   paragraphs (''Para one.'' @ [nl, nl, nl] @ ''Para two.'') = [''Para one.'', ''Para two.'']"
  (is "2 \<le> length (blank_line_blocks ?T) \<and> _")
proof -
  have b: "blank_line_blocks ?T = [''Para one.'', ''Para two.'']"
    by (simp add: blank_line_blocks_def strip_def lstrip_def rstrip_def isspace_def nl_def)
  then have h: "2 \<le> length (blank_line_blocks ?T)"
    by simp
  have p: "paragraphs ?T = blank_line_blocks ?T"
    using paragraphs_blank_line_blocks [OF h] by (elim conjE)
  show ?thesis
  proof (rule conjI)
    show "2 \<le> length (blank_line_blocks ?T)"
      by (rule h)
    show "paragraphs ?T = [''Para one.'', ''Para two.'']"
      by (rule trans [OF p b])
  qed
qed

text \<open>
  C5.  A page text with no block or one block is segmented by strategy 2: it is
  split on single newlines, every line is trimmed and the empty ones are discarded.
  The paragraphs are the non-empty trimmed lines of the page text, and their number
  is the number of lines whose trimmed form is not empty.
\<close>

theorem paragraphs_line_fallback:
  "length (blank_line_blocks full_text) \<le> 1 \<Longrightarrow>
   paragraphs full_text = strip_nonempty (py_split [nl] full_text) \<and>
   paragraphs full_text = nonempty_trimmed_lines full_text \<and>
   length (paragraphs full_text) =
     length (filter (\<lambda>line. strip line \<noteq> []) (text_lines full_text))"
proof -
  assume "length (blank_line_blocks full_text) \<le> 1"
  then have p: "paragraphs full_text = strip_nonempty (py_split [nl] full_text)"
    by (simp add: paragraphs_def Let_def strip_nonempty_split2_eq_blocks)
  have "length (strip_nonempty (py_split [nl] full_text)) =
        length (filter (\<lambda>line. strip line \<noteq> []) (text_lines full_text))"
    by (simp add: py_split1_eq_text_lines strip_nonempty_def)
  with p show ?thesis
    by (simp add: strip_nonempty_split1_eq_lines)
qed

theorem paragraphs_line_fallback_witness:
  "length (blank_line_blocks (''Line one. '' @ [nl] @ ''Line two.'' @ [nl])) \<le> 1 \<and>
   paragraphs (''Line one. '' @ [nl] @ ''Line two.'' @ [nl]) = [''Line one.'', ''Line two.''] \<and>
   length (paragraphs (''Line one. '' @ [nl] @ ''Line two.'' @ [nl])) =
     length (filter (\<lambda>line. strip line \<noteq> [])
       (text_lines (''Line one. '' @ [nl] @ ''Line two.'' @ [nl])))"
  (is "length (blank_line_blocks ?T) \<le> 1 \<and> _ \<and> _")
proof -
  have b: "blank_line_blocks ?T = [''Line one. '' @ [nl] @ ''Line two.'']"
    by (simp add: blank_line_blocks_def strip_def lstrip_def rstrip_def isspace_def nl_def)
  then have h: "length (blank_line_blocks ?T) \<le> 1"
    by simp
  have l: "nonempty_trimmed_lines ?T = [''Line one.'', ''Line two.'']"
    by (simp add: nonempty_trimmed_lines_def strip_def lstrip_def rstrip_def isspace_def nl_def)
  note r = paragraphs_line_fallback [OF h]
  have p: "paragraphs ?T = nonempty_trimmed_lines ?T"
    by (rule conjunct1 [OF conjunct2 [OF r]])
  have n: "length (paragraphs ?T) =
            length (filter (\<lambda>line. strip line \<noteq> []) (text_lines ?T))"
    by (rule conjunct2 [OF conjunct2 [OF r]])
  show ?thesis
  proof (intro conjI)
    show "length (blank_line_blocks ?T) \<le> 1"
      by (rule h)
    show "paragraphs ?T = [''Line one.'', ''Line two.'']"
      by (rule trans [OF p l])
    show "length (paragraphs ?T) =
          length (filter (\<lambda>line. strip line \<noteq> []) (text_lines ?T))"
      by (rule n)
  qed
qed

section \<open>extract_paragraph: the paragraph index\<close>

lemma str_nat_digit: "n < 10 \<Longrightarrow> str_nat n = [digit_char n]"
  by (simp add: str_nat.simps)

lemma found_in_paragraph_error_msg:
  "sublist (''Found '' @ str_nat found @ '' paragraphs.'')
     (paragraph_error_msg paragraph_index page_number found)"
proof -
  have "paragraph_error_msg paragraph_index page_number found =
        (''Paragraph index '' @ str_int paragraph_index @ '' out of range on page '' @
         str_int page_number @ ''. '') @ (''Found '' @ str_nat found @ '' paragraphs.'') @ []"
    by (simp add: paragraph_error_msg_def)
  then show ?thesis
    by (simp only: sublist_appendI)
qed

text \<open>
  C3.  On a page that exists, with \<open>n\<close> paragraphs found, a paragraph index below 0
  or not below \<open>n\<close> makes \<open>extract_paragraph\<close> raise \<open>ValueError\<close> (the RangeError of
  the specification); its message ends with \<open>Found n paragraphs.\<close>, the true count.
  In particular index 0 on a page without any paragraph raises.
\<close>

theorem extract_paragraph_index_out_of_range:
  assumes "files pdf_path = Some (Inr pages)"
    and "1 \<le> page_number" and "page_number \<le> int (length pages)"
    and "n = length (paragraphs (pages ! nat (page_number - 1)))"
    and "paragraph_index < 0 \<or> int n \<le> paragraph_index"
  shows "extract_paragraph files elapsed pdf_path page_number paragraph_index =
           Inl (ValueError (paragraph_error_msg paragraph_index page_number n)) \<and>
         paragraph_error_msg paragraph_index page_number n =
           ''Paragraph index '' @ str_int paragraph_index @ '' out of range on page '' @
           str_int page_number @ ''. Found '' @ str_nat n @ '' paragraphs.'' \<and>
         sublist (''Found '' @ str_nat n @ '' paragraphs.'')
           (paragraph_error_msg paragraph_index page_number n)"
proof (intro conjI)
  have "\<not> (page_number - 1 < 0 \<or> int (length pages) \<le> page_number - 1)"
    using assms(2,3) by simp
  with assms(1,4,5)
  show "extract_paragraph files elapsed pdf_path page_number paragraph_index =
          Inl (ValueError (paragraph_error_msg paragraph_index page_number n))"
    unfolding extract_paragraph_def Let_def by simp
  show "paragraph_error_msg paragraph_index page_number n =
          ''Paragraph index '' @ str_int paragraph_index @ '' out of range on page '' @
          str_int page_number @ ''. Found '' @ str_nat n @ '' paragraphs.''"
    by (simp add: paragraph_error_msg_def)
  show "sublist (''Found '' @ str_nat n @ '' paragraphs.'')
          (paragraph_error_msg paragraph_index page_number n)"
    by (rule found_in_paragraph_error_msg)
qed

theorem extract_paragraph_index_out_of_range_witness:
  "extract_paragraph (\<lambda>p. if p = ''doc.pdf'' then Some (Inr ['''']) else None) ()
     ''doc.pdf'' 1 0 =
   Inl (ValueError ''Paragraph index 0 out of range on page 1. Found 0 paragraphs.'')"
proof -
  let ?files = "\<lambda>p. if p = ''doc.pdf'' then Some (Inr [[]]) else (None :: (exc + string list) option)"
  have f: "?files ''doc.pdf'' = Some (Inr [''''])"
    by simp
  have n: "(0::nat) = length (paragraphs ([''''] ! nat (1 - 1)))"
    by (simp add: paragraphs_def strip_nonempty_def strip_def lstrip_def rstrip_def)
  have i: "(0::int) < 0 \<or> int 0 \<le> 0"
    by simp
  have m: "paragraph_error_msg 0 1 0 =
           ''Paragraph index 0 out of range on page 1. Found 0 paragraphs.''"
    by (simp add: paragraph_error_msg_def str_int_def str_nat_digit digit_char_def)
  have "extract_paragraph ?files () ''doc.pdf'' 1 0 = Inl (ValueError (paragraph_error_msg 0 1 0))"
    using extract_paragraph_index_out_of_range [of ?files "''doc.pdf''" "['''']" 1 0 0 "()", OF f _ _ n i]
    by simp
  then show ?thesis
    by (simp only: m)
qed

text \<open>The run of the specification: two paragraphs on one page, the second one asked for.\<close>

lemma extract_paragraph_example:
  "extract_paragraph (\<lambda>p. if p = ''one.pdf'' then Some (Inr [''Para one.'' @ [nl, nl] @ ''Para two.'']) else None)
     elapsed ''one.pdf'' 1 1 =
   Inr \<lparr>result_text = ''Para two.'', result_page = 1, result_paragraph_index = 1,
        result_length = 9, result_extraction_time = elapsed\<rparr>"
  by (simp add: extract_paragraph_def paragraphs_def strip_nonempty_def strip_def lstrip_def
      rstrip_def isspace_def nl_def Let_def)

section \<open>clean_transcript\<close>

text \<open>
  C2.  When the completion call made by \<open>clean_transcript\<close> raises, whatever the
  exception, \<open>clean_transcript\<close> returns \<open>raw_text\<close> itself and raises nothing.
\<close>

theorem clean_transcript_remote_failure:
  "create \<lparr>model = model_name,
           messages = [(''system'', clean_system_prompt), (''user'', raw_text)],
           json_mode = False\<rparr> = Inl e \<Longrightarrow>
   clean_transcript create model_name raw_text = Inr raw_text"
  by (simp add: clean_transcript_def clean_transcript_try_def)

theorem clean_transcript_remote_failure_witness:
  "clean_transcript (\<lambda>request. Inl (OtherError ''Connection error.'')) ''llama3.1:8b''
     ''teh  raw text'' = Inr ''teh  raw text''"
  by (rule clean_transcript_remote_failure [of _ _ _ "OtherError ''Connection error.''"]) simp

lemma clean_transcript_total: "\<exists>s. clean_transcript create model_name raw_text = Inr s"
  by (simp add: clean_transcript_def split: sum.split)

section \<open>generate_mindmap_json\<close>

text \<open>
  C1.  When the model answers with a string and \<open>json.loads\<close> raises
  \<open>JSONDecodeError\<close> on that string after \<open>clean_json_response\<close>, then
  \<open>generate_mindmap_json\<close> returns the fallback node, root \<open>Error Parsing JSON\<close> with
  the one childless child \<open>Raw Text\<close>, and raises nothing.
\<close>

theorem generate_mindmap_json_parse_failure:
  assumes "create \<lparr>model = model_name,
                    messages = [(''system'', mindmap_system_prompt), (''user'', transcript_text)],
                    json_mode = True\<rparr> = Inr (Some content # more_choices)"
    and "json_loads (clean_json_response content) = Inl JSONDecodeError"
  shows "generate_mindmap_json create json_loads model_name transcript_text =
           Inr (JObj [(''root'', JStr ''Error Parsing JSON''),
                      (''children'',
                       JArr [JObj [(''name'', JStr ''Raw Text''), (''children'', JArr [])]])])"
  using assms
  by (simp add: generate_mindmap_json_def first_content_def mindmap_handlers_def error_tree_def)

theorem generate_mindmap_json_parse_failure_witness:
  "generate_mindmap_json
     (\<lambda>request. Inr [Some ''Sure! Here is the mind map.''])
     (\<lambda>s. if s = ''{}'' then Inr (JObj []) else Inl JSONDecodeError)
     ''gemma3:4b'' ''some transcript'' =
   Inr (JObj [(''root'', JStr ''Error Parsing JSON''),
              (''children'',
               JArr [JObj [(''name'', JStr ''Raw Text''), (''children'', JArr [])]])])"
proof (rule generate_mindmap_json_parse_failure)
  show "(\<lambda>request. Inr [Some ''Sure! Here is the mind map.''])
          \<lparr>model = ''gemma3:4b'',
           messages = [(''system'', mindmap_system_prompt), (''user'', ''some transcript'')],
           json_mode = True\<rparr> = Inr (Some ''Sure! Here is the mind map.'' # [])"
    by simp
  have "clean_json_response ''Sure! Here is the mind map.'' = ''Sure! Here is the mind map.''"
    by (simp add: clean_json_response_def strip_def lstrip_def rstrip_def isspace_def)
  then show "(if clean_json_response ''Sure! Here is the mind map.'' = ''{}''
              then Inr (JObj []) else Inl JSONDecodeError) = Inl JSONDecodeError"
    by simp
qed

section \<open>clean_json_response\<close>

lemma plain_fence_cleaned:
  "clean_json_response (''```'' @ [nl] @ ''{}'' @ [nl] @ ''```'') = ''```'' @ [nl] @ ''{}''"
  by (simp add: clean_json_response_def strip_def lstrip_def rstrip_def isspace_def nl_def)

text \<open>
  C8 does not hold on the code.  A JSON object inside a plain fence, without the
  language tag, keeps its opening fence: only the closing fence is removed, and the
  text handed to the parser starts with three backquotes.  The same object inside a
  fence tagged \<open>json\<close> is freed of both markers.
\<close>

theorem clean_json_response_plain_fence:
  "clean_json_response (''```'' @ [nl] @ ''{}'' @ [nl] @ ''```'') = ''```'' @ [nl] @ ''{}'' \<and>
   clean_json_response (''```'' @ [nl] @ ''{}'' @ [nl] @ ''```'') \<noteq> ''{}'' \<and>
   prefix ''```'' (clean_json_response (''```'' @ [nl] @ ''{}'' @ [nl] @ ''```''))"
  unfolding plain_fence_cleaned by simp

lemma clean_json_response_json_fence:
  "clean_json_response (''```json'' @ [nl] @ ''{}'' @ [nl] @ ''```'') = ''{}''"
  by (simp add: clean_json_response_def strip_def lstrip_def rstrip_def isspace_def nl_def)

lemma generate_mindmap_json_plain_fence:
  assumes "create \<lparr>model = model_name,
                    messages = [(''system'', mindmap_system_prompt), (''user'', transcript_text)],
                    json_mode = True\<rparr> = Inr [Some (''```'' @ [nl] @ ''{}'' @ [nl] @ ''```'')]"
    and "json_loads (''```'' @ [nl] @ ''{}'') = Inl JSONDecodeError"
  shows "generate_mindmap_json create json_loads model_name transcript_text = Inr error_tree"
proof -
  have "json_loads (clean_json_response (''```'' @ [nl] @ ''{}'' @ [nl] @ ''```'')) =
        Inl JSONDecodeError"
    using assms(2) by (simp only: plain_fence_cleaned)
  with assms(1) show ?thesis
    by (simp add: generate_mindmap_json_def first_content_def mindmap_handlers_def Let_def
        del: sub_fence_json.simps sub_fence_end.simps)
qed

section \<open>The artifact file names\<close>

lemma py_replace_absent:
  "old \<noteq> [] \<Longrightarrow> \<not> sublist old s \<Longrightarrow> py_replace old new s = s"
proof (induction s)
  case Nil
  then show ?case by simp
next
  case (Cons c cs)
  from Cons.prems have "\<not> prefix old (c # cs)" and "\<not> sublist old cs"
    by (simp_all add: sublist_Cons_right)
  with Cons show ?case
    by simp
qed

lemma py_replace_self: "old \<noteq> [] \<Longrightarrow> py_replace old new old = new"
  by (cases old) simp_all

lemma prefix_of_stem:
  assumes "old \<noteq> []" and "prefix old (c # cs @ old)"
  shows "prefix old (c # cs @ butlast old)"
proof -
  have "prefix (butlast old) old"
    by (rule prefixeq_butlast)
  then have "prefix (c # cs @ butlast old) (c # cs @ old)"
    by simp
  moreover have "length old \<le> length (c # cs @ butlast old)"
    using assms(1) by simp
  ultimately show ?thesis
    using assms(2) by (rule prefix_length_prefix [rotated])
qed

lemma py_replace_suffix_only:
  "old \<noteq> [] \<Longrightarrow> \<not> sublist old (stem @ butlast old) \<Longrightarrow>
   py_replace old new (stem @ old) = stem @ new"
proof (induction stem)
  case Nil
  then show ?case
    by (simp add: py_replace_self)
next
  case (Cons c cs)
  from Cons.prems(2) have np: "\<not> prefix old (c # cs @ butlast old)"
    and rest: "\<not> sublist old (cs @ butlast old)"
    by (simp_all add: sublist_Cons_right)
  have "\<not> prefix old (c # cs @ old)"
  proof
    assume "prefix old (c # cs @ old)"
    with Cons.prems(1) have "prefix old (c # cs @ butlast old)"
      by (rule prefix_of_stem)
    with np show False ..
  qed
  moreover have "py_replace old new (cs @ old) = cs @ new"
    using Cons.prems(1) rest by (rule Cons.IH)
  ultimately show ?case
    using Cons.prems(1) by simp
qed

lemma txt_filename_cases:
  "txt_filename output =
     (if py_replace ''.html'' ''.txt'' output = output then output @ ''.txt''
      else py_replace ''.html'' ''.txt'' output)"
  by (simp add: txt_filename_def Let_def)

lemma json_filename_cases:
  "json_filename output =
     (if py_replace ''.html'' ''.json'' output = output then output @ ''.json''
      else py_replace ''.html'' ''.json'' output)"
  by (simp add: json_filename_def Let_def)

text \<open>
  C9 as stated fails: \<open>str.replace\<close> rewrites every occurrence of \<open>.html\<close>, not only
  a suffix.  The base name \<open>a.html.bak\<close> does not end in \<open>.html\<close>, yet its transcript
  goes to \<open>a.txt.bak\<close> and its JSON to \<open>a.json.bak\<close>, not to the base name with the
  extension appended; and the visual map goes to the base name itself, which has no
  extension \<open>.html\<close>.
\<close>

theorem artifact_filenames_counterexample:
  "\<not> suffix ''.html'' ''a.html.bak'' \<and>
   txt_filename ''a.html.bak'' = ''a.txt.bak'' \<and>
   txt_filename ''a.html.bak'' \<noteq> ''a.html.bak'' @ ''.txt'' \<and>
   json_filename ''a.html.bak'' = ''a.json.bak'' \<and>
   json_filename ''a.html.bak'' \<noteq> ''a.html.bak'' @ ''.json'' \<and>
   output_path ''a.html.bak'' = ''a.html.bak''"
  by (simp add: txt_filename_def json_filename_def output_path_def suffix_to_prefix)

text \<open>
  C9, amended.  The visual map is written to the base name itself.  A base name
  that ends in \<open>.html\<close> and has no other occurrence of \<open>.html\<close> has that suffix
  replaced by \<open>.txt\<close> and by \<open>.json\<close>.  A base name with no occurrence of \<open>.html\<close>
  at all gets the extension appended to the full base name.
\<close>

theorem artifact_filenames:
  "output_path output = output \<and>
   (\<not> sublist ''.html'' (stem @ ''.htm'') \<longrightarrow>
      txt_filename (stem @ ''.html'') = stem @ ''.txt'' \<and>
      json_filename (stem @ ''.html'') = stem @ ''.json'') \<and>
   (\<not> sublist ''.html'' output \<longrightarrow>
      txt_filename output = output @ ''.txt'' \<and>
      json_filename output = output @ ''.json'')"
proof (intro conjI impI)
  show "output_path output = output"
    by (simp add: output_path_def)
next
  assume "\<not> sublist ''.html'' (stem @ ''.htm'')"
  then have "\<not> sublist ''.html'' (stem @ butlast ''.html'')"
    by simp
  then have r: "py_replace ''.html'' new (stem @ ''.html'') = stem @ new" for new
    by (rule py_replace_suffix_only [rotated])  simp
  show "txt_filename (stem @ ''.html'') = stem @ ''.txt''"
    unfolding txt_filename_cases r by simp
  show "json_filename (stem @ ''.html'') = stem @ ''.json''"
    unfolding json_filename_cases r by simp
next
  assume "\<not> sublist ''.html'' output"
  then have r: "py_replace ''.html'' new output = output" for new
    by (rule py_replace_absent [rotated]) simp
  show "txt_filename output = output @ ''.txt''"
    unfolding txt_filename_cases r by simp
  show "json_filename output = output @ ''.json''"
    unfolding json_filename_cases r by simp
qed

theorem artifact_filenames_witness:
  "output_path ''mindmap'' = ''mindmap'' \<and>
   \<not> sublist ''.html'' (''final_mindmap'' @ ''.htm'') \<and>
   txt_filename (''final_mindmap'' @ ''.html'') = ''final_mindmap'' @ ''.txt'' \<and>
   json_filename (''final_mindmap'' @ ''.html'') = ''final_mindmap'' @ ''.json'' \<and>
   \<not> sublist ''.html'' ''mindmap'' \<and>
   txt_filename ''mindmap'' = ''mindmap'' @ ''.txt'' \<and>
   json_filename ''mindmap'' = ''mindmap'' @ ''.json''"
proof -
  have a: "\<not> sublist ''.html'' (''final_mindmap'' @ ''.htm'')"
    by (simp add: sublist_Cons_right)
  have b: "\<not> sublist ''.html'' ''mindmap''"
    by (simp add: sublist_Cons_right)
  note r = artifact_filenames [of "''mindmap''" "''final_mindmap''"]
  have o: "output_path ''mindmap'' = ''mindmap''"
    using r by (rule conjunct1)
  have "txt_filename (''final_mindmap'' @ ''.html'') = ''final_mindmap'' @ ''.txt'' \<and>
        json_filename (''final_mindmap'' @ ''.html'') = ''final_mindmap'' @ ''.json''"
    using conjunct1 [OF conjunct2 [OF r]] a by (rule mp)
  moreover have "txt_filename ''mindmap'' = ''mindmap'' @ ''.txt'' \<and>
        json_filename ''mindmap'' = ''mindmap'' @ ''.json''"
    using conjunct2 [OF conjunct2 [OF r]] b by (rule mp)
  ultimately show ?thesis
    using o a b by (simp only: simp_thms)
qed

section \<open>Decimal numerals\<close>

lemma str_nat_step:
  "\<not> n < 10 \<Longrightarrow> str_nat n = str_nat (n div 10) @ [digit_char (n mod 10)]"
  by (subst str_nat.simps) simp

lemma digit_char_code: "d < 10 \<Longrightarrow> of_char (digit_char d) = 48 + d"
proof -
  assume "d < 10"
  then have "d \<in> {0, 1, 2, 3, 4, 5, 6, 7, 8, 9}"
    by auto
  then show ?thesis
    by (auto simp: digit_char_def)
qed

lemma digit_char_inj:
  assumes "d < 10" and "e < 10" and "digit_char d = digit_char e"
  shows "d = e"
proof -
  have "(48::nat) + d = of_char (digit_char d)"
    using assms(1) by (rule digit_char_code [symmetric])
  also have "\<dots> = of_char (digit_char e)"
    by (simp only: assms(3))
  also have "\<dots> = 48 + e"
    using assms(2) by (rule digit_char_code)
  finally show ?thesis
    by simp
qed

lemma of_char_dq: "of_char dq = (34::nat)"
  by (simp add: dq_def)

lemma digit_char_not_dq: "d < 10 \<Longrightarrow> digit_char d \<noteq> dq"
proof
  assume "d < 10" and "digit_char d = dq"
  then have "(48::nat) + d = 34"
    using digit_char_code [of d] of_char_dq by simp
  then show False
    by simp
qed

lemma dq_notin_digit: "d < 10 \<Longrightarrow> dq \<notin> set [digit_char d]"
  using digit_char_not_dq [of d] by auto

lemma str_nat_not_Nil: "str_nat n \<noteq> []"
  by (subst str_nat.simps) simp

lemma dq_notin_str_nat: "dq \<notin> set (str_nat n)"
proof (induction n rule: str_nat.induct)
  case (1 n)
  show ?case
  proof (cases "n < 10")
    case True
    then have "str_nat n = [digit_char n]"
      by (rule str_nat_digit)
    with True show ?thesis
      by (simp only: dq_notin_digit not_False_eq_True)
  next
    case False
    then have eq: "str_nat n = str_nat (n div 10) @ [digit_char (n mod 10)]"
      by (rule str_nat_step)
    have "dq \<notin> set (str_nat (n div 10))"
      using False by (rule "1.IH")
    moreover have "dq \<notin> set [digit_char (n mod 10)]"
      by (rule dq_notin_digit) simp
    ultimately show ?thesis
      unfolding eq set_append by blast
  qed
qed

lemma str_nat_inj: "str_nat n = str_nat m \<Longrightarrow> n = m"
proof (induction n arbitrary: m rule: str_nat.induct)
  case (1 n)
  show ?case
  proof (cases "n < 10")
    case n: True
    then have en: "str_nat n = [digit_char n]"
      by (rule str_nat_digit)
    show ?thesis
    proof (cases "m < 10")
      case True
      then have "str_nat m = [digit_char m]"
        by (rule str_nat_digit)
      with en "1.prems" have "digit_char n = digit_char m"
        by simp
      with n True show ?thesis
        by (rule digit_char_inj)
    next
      case False
      then have "str_nat m = str_nat (m div 10) @ [digit_char (m mod 10)]"
        by (rule str_nat_step)
      with en "1.prems" have "str_nat (m div 10) = []"
        by simp
      with str_nat_not_Nil show ?thesis
        by blast
    qed
  next
    case n: False
    then have en: "str_nat n = str_nat (n div 10) @ [digit_char (n mod 10)]"
      by (rule str_nat_step)
    show ?thesis
    proof (cases "m < 10")
      case True
      then have "str_nat m = [digit_char m]"
        by (rule str_nat_digit)
      with en "1.prems" have "str_nat (n div 10) = []"
        by simp
      with str_nat_not_Nil show ?thesis
        by blast
    next
      case False
      then have "str_nat m = str_nat (m div 10) @ [digit_char (m mod 10)]"
        by (rule str_nat_step)
      with en "1.prems" have q: "str_nat (n div 10) = str_nat (m div 10)"
        and r: "digit_char (n mod 10) = digit_char (m mod 10)"
        by simp_all
      have d: "n div 10 = m div 10"
        using n q by (rule "1.IH")
      have md: "n mod 10 = m mod 10"
        by (rule digit_char_inj [OF _ _ r]) simp_all
      have "n = n div 10 * 10 + n mod 10"
        by simp
      also have "\<dots> = m div 10 * 10 + m mod 10"
        by (simp only: d md)
      also have "\<dots> = m"
        by simp
      finally show ?thesis .
    qed
  qed
qed

lemma node_name_inj: "inj node_name"
proof (rule injI)
  fix n m
  assume "node_name n = node_name m"
  then have "str_nat n = str_nat m"
    by (simp add: node_name_def)
  then show "n = m"
    by (rule str_nat_inj)
qed

lemma dq_notin_node_name: "dq \<notin> set (node_name k)"
proof -
  have "dq \<notin> set ''node''"
    by (simp add: dq_def)
  with dq_notin_str_nat [of k] show ?thesis
    unfolding node_name_def set_append by blast
qed

section \<open>Rendering\<close>

lemma py_replace_char:
  "py_replace [a] [b] s = map (\<lambda>c. if c = a then b else c) s"
  by (induction s) auto

lemma dq_notin_sanitized: "dq \<notin> set (py_replace [dq] [sq] label)"
  by (auto simp: py_replace_char dq_def sq_def)

lemma sanitized_label_Inr:
  "sanitized_label d = Inr label \<Longrightarrow>
   \<exists>raw. label_value d = JStr raw \<and> label = py_replace [dq] [sq] raw"
  by (cases "label_value d") (simp_all add: sanitized_label_def)

lemma children_loop_extends:
  "children_loop cs current_id lines counter = Inr (lines', next_id) \<Longrightarrow>
   \<exists>more. lines' = lines @ more"
proof (induction cs arbitrary: lines counter)
  case Nil
  then show ?case by simp
next
  case (Cons child rest)
  from Cons.prems obtain child_lines n where
    "children_loop rest current_id (lines @ child_lines) n = Inr (lines', next_id)"
    by (auto split: sum.splits)
  then obtain more where "lines' = (lines @ child_lines) @ more"
    using Cons.IH by blast
  then have "lines' = lines @ (child_lines @ more)"
    by simp
  then show ?case ..
qed

lemma json_to_mermaid_first_line:
  assumes "json_to_mermaid (JObj d) parent_id node_id = Inr (lines, next_id)"
    and "label_value d = JStr raw"
  shows "\<exists>more. lines = decl_line parent_id (node_name node_id) (py_replace [dq] [sq] raw) # more"
proof -
  from assms(2) have s: "sanitized_label d = Inr (py_replace [dq] [sq] raw)"
    by (simp add: sanitized_label_def)
  with assms(1) obtain cs where
    "children_loop cs (node_name node_id)
       [decl_line parent_id (node_name node_id) (py_replace [dq] [sq] raw)] (node_id + 1) =
     Inr (lines, next_id)"
    by (auto simp: Let_def split: sum.splits)
  then obtain more where
    "lines = [decl_line parent_id (node_name node_id) (py_replace [dq] [sq] raw)] @ more"
    using children_loop_extends by blast
  then show ?thesis
    by simp
qed

lemma well_quoted_decl_line:
  assumes "quote_free parent_id" and "dq \<notin> set current_id" and "dq \<notin> set label"
  shows "well_quoted (decl_line parent_id current_id label)"
proof -
  have n: "well_quoted (node_decl current_id label)"
    unfolding well_quoted_def
  proof (intro exI conjI)
    show "node_decl current_id label = (''    '' @ current_id @ ''['') @ [dq] @ label @ [dq] @ '']''"
      by (simp add: node_decl_def)
    show "dq \<notin> set (''    '' @ current_id @ ''['')"
      using assms(2) by (simp add: dq_def)
    show "dq \<notin> set label"
      by (rule assms(3))
  qed
  have e: "well_quoted (edge_decl p current_id label)" if "dq \<notin> set p" for p
    unfolding well_quoted_def
  proof (intro exI conjI)
    show "edge_decl p current_id label =
          (''    '' @ p @ '' --> '' @ current_id @ ''['') @ [dq] @ label @ [dq] @ '']''"
      by (simp add: edge_decl_def)
    show "dq \<notin> set (''    '' @ p @ '' --> '' @ current_id @ ''['')"
      using assms(2) that by (simp add: dq_def)
    show "dq \<notin> set label"
      by (rule assms(3))
  qed
  show ?thesis
  proof (cases parent_id)
    case None
    with n show ?thesis
      by (simp add: decl_line_def)
  next
    case (Some p)
    with assms(1) have "dq \<notin> set p"
      by (simp add: quote_free_def)
    with Some n e show ?thesis
      by (simp add: decl_line_def)
  qed
qed

lemma rendered_lines_well_quoted:
  shows "\<forall>lines next_id. json_to_mermaid node parent_id node_id = Inr (lines, next_id) \<longrightarrow>
           quote_free parent_id \<longrightarrow> list_all well_quoted lines"
    and "\<forall>lines' next_id. children_loop cs current_id lines counter = Inr (lines', next_id) \<longrightarrow>
           dq \<notin> set current_id \<longrightarrow> list_all well_quoted lines \<longrightarrow> list_all well_quoted lines'"
proof (induct node parent_id node_id and cs current_id lines counter
    rule: json_to_mermaid_children_loop.induct)
  case (1 d parent_id node_id)
  show ?case
  proof (intro allI impI)
    fix lines next_id
    assume r: "json_to_mermaid (JObj d) parent_id node_id = Inr (lines, next_id)"
      and q: "quote_free parent_id"
    from r obtain label cs where s: "sanitized_label d = Inr label"
      and l: "loop_children d = Inr cs"
      and c: "children_loop cs (node_name node_id)
                [decl_line parent_id (node_name node_id) label] (node_id + 1) =
              Inr (lines, next_id)"
      by (auto simp: Let_def split: sum.splits)
    from s have "dq \<notin> set label"
      using sanitized_label_Inr dq_notin_sanitized by blast
    with q have "well_quoted (decl_line parent_id (node_name node_id) label)"
      by (intro well_quoted_decl_line dq_notin_node_name)
    then have "list_all well_quoted [decl_line parent_id (node_name node_id) label]"
      by simp
    with 1 [OF refl s refl refl l] c dq_notin_node_name show "list_all well_quoted lines"
      by blast
  qed
next
  case (3 current_id lines child_id_counter)
  show ?case by simp
next
  case (4 child rest current_id lines child_id_counter)
  show ?case
  proof (intro allI impI)
    fix lines' next_id
    assume r: "children_loop (child # rest) current_id lines child_id_counter = Inr (lines', next_id)"
      and q: "dq \<notin> set current_id" and w: "list_all well_quoted lines"
    from r obtain child_lines n where
      c: "json_to_mermaid child (Some current_id) child_id_counter = Inr (child_lines, n)"
      and k: "children_loop rest current_id (lines @ child_lines) n = Inr (lines', next_id)"
      by (auto split: sum.splits)
    from q have "quote_free (Some current_id)"
      by (simp add: quote_free_def)
    with "4.hyps"(1) c have "list_all well_quoted child_lines"
      by blast
    with w have "list_all well_quoted (lines @ child_lines)"
      by simp
    with "4.hyps"(2) [OF c refl] k q show "list_all well_quoted lines'"
      by blast
  qed
qed simp_all

section \<open>Identifiers\<close>

lemma topic_tree_JObj:
  assumes "topic_tree (JObj d)"
  shows "\<exists>raw cs. label_value d = JStr raw \<and>
           sanitized_label d = Inr (py_replace [dq] [sq] raw) \<and>
           loop_children d = Inr cs \<and> topic_trees cs \<and>
           count_nodes (JObj d) = Suc (count_nodes_list cs)"
proof -
  from assms obtain raw where raw: "label_value d = JStr raw"
    by (cases "label_value d") simp_all
  then have s: "sanitized_label d = Inr (py_replace [dq] [sq] raw)"
    by (simp add: sanitized_label_def)
  show ?thesis
  proof (cases "map_of d ''children''")
    case None
    then have "loop_children d = Inr []" and "count_nodes (JObj d) = Suc (count_nodes_list [])"
      by (simp_all add: loop_children_def dict_get_def)
    with raw s show ?thesis
      by (metis topic_trees.simps(1))
  next
    case (Some v)
    with assms obtain cs where v: "v = JArr cs" and t: "topic_trees cs"
      by (cases v) simp_all
    from Some v have "loop_children d = Inr cs" and "count_nodes (JObj d) = Suc (count_nodes_list cs)"
      by (simp_all add: loop_children_def dict_get_def)
    with raw s t show ?thesis
      by blast
  qed
qed

lemma render_topic_trees:
  shows "topic_tree node \<longrightarrow>
           (\<exists>ds. json_to_mermaid node parent_id node_id =
                   Inr (map render_decl ds, node_id + count_nodes node) \<and>
                 map decl_id ds = [node_id ..< node_id + count_nodes node])"
    and "topic_trees cs \<longrightarrow>
           (\<exists>ds. children_loop cs current_id lines counter =
                   Inr (lines @ map render_decl ds, counter + count_nodes_list cs) \<and>
                 map decl_id ds = [counter ..< counter + count_nodes_list cs])"
proof (induct node parent_id node_id and cs current_id lines counter
    rule: json_to_mermaid_children_loop.induct)
  case (1 d parent_id node_id)
  show ?case
  proof
    assume "topic_tree (JObj d)"
    then obtain raw cs where s: "sanitized_label d = Inr (py_replace [dq] [sq] raw)"
      and l: "loop_children d = Inr cs" and t: "topic_trees cs"
      and n: "count_nodes (JObj d) = Suc (count_nodes_list cs)"
      using topic_tree_JObj by blast
    let ?label = "py_replace [dq] [sq] raw"
    let ?decl = "\<lparr>decl_parent = parent_id, decl_id = node_id, decl_label = ?label\<rparr>"
    from 1 [OF refl s refl refl l] t obtain ds where
      c: "children_loop cs (node_name node_id) [decl_line parent_id (node_name node_id) ?label]
            (node_id + 1) =
          Inr ([decl_line parent_id (node_name node_id) ?label] @ map render_decl ds,
               node_id + 1 + count_nodes_list cs)"
      and i: "map decl_id ds = [node_id + 1 ..< node_id + 1 + count_nodes_list cs]"
      by blast
    have "json_to_mermaid (JObj d) parent_id node_id =
          Inr (map render_decl (?decl # ds), node_id + count_nodes (JObj d))"
      using s l c n by (simp add: Let_def render_decl_def)
    moreover have "map decl_id (?decl # ds) = [node_id ..< node_id + count_nodes (JObj d)]"
      using i n by (simp add: upt_conv_Cons)
    ultimately show "\<exists>ds. json_to_mermaid (JObj d) parent_id node_id =
                      Inr (map render_decl ds, node_id + count_nodes (JObj d)) \<and>
                    map decl_id ds = [node_id ..< node_id + count_nodes (JObj d)]"
      by (intro exI conjI)
  qed
next
  case (3 current_id lines child_id_counter)
  have "children_loop [] current_id lines child_id_counter =
        Inr (lines @ map render_decl [], child_id_counter + count_nodes_list [])"
    by simp
  moreover have "map decl_id [] = [child_id_counter ..< child_id_counter + count_nodes_list []]"
    by simp
  ultimately show ?case
    by (intro impI exI conjI)
next
  case (4 child rest current_id lines child_id_counter)
  show ?case
  proof
    assume "topic_trees (child # rest)"
    then have tc: "topic_tree child" and tr: "topic_trees rest"
      by simp_all
    from "4.hyps"(1) tc obtain ds1 where
      c: "json_to_mermaid child (Some current_id) child_id_counter =
          Inr (map render_decl ds1, child_id_counter + count_nodes child)"
      and i1: "map decl_id ds1 = [child_id_counter ..< child_id_counter + count_nodes child]"
      by blast
    from "4.hyps"(2) [OF c refl] tr obtain ds2 where
      r: "children_loop rest current_id (lines @ map render_decl ds1)
            (child_id_counter + count_nodes child) =
          Inr ((lines @ map render_decl ds1) @ map render_decl ds2,
               child_id_counter + count_nodes child + count_nodes_list rest)"
      and i2: "map decl_id ds2 =
               [child_id_counter + count_nodes child ..<
                child_id_counter + count_nodes child + count_nodes_list rest]"
      by blast
    have "children_loop (child # rest) current_id lines child_id_counter =
          Inr (lines @ map render_decl (ds1 @ ds2),
               child_id_counter + count_nodes_list (child # rest))"
      using c r by (simp add: add.assoc)
    moreover have "map decl_id (ds1 @ ds2) =
          [child_id_counter ..< child_id_counter + count_nodes_list (child # rest)]"
    proof -
      have "map decl_id (ds1 @ ds2) =
            [child_id_counter ..< child_id_counter + count_nodes child] @
            [child_id_counter + count_nodes child ..<
             child_id_counter + count_nodes child + count_nodes_list rest]"
        by (simp only: map_append i1 i2)
      also have "\<dots> =
            [child_id_counter ..< child_id_counter + count_nodes child + count_nodes_list rest]"
        by (rule upt_add_eq_append [symmetric]) simp
      also have "child_id_counter + count_nodes child + count_nodes_list rest =
                 child_id_counter + count_nodes_list (child # rest)"
        by simp
      finally show ?thesis .
    qed
    ultimately show "\<exists>ds. children_loop (child # rest) current_id lines child_id_counter =
                      Inr (lines @ map render_decl ds,
                           child_id_counter + count_nodes_list (child # rest)) \<and>
                    map decl_id ds =
                      [child_id_counter ..< child_id_counter + count_nodes_list (child # rest)]"
      by (intro exI conjI)
  qed
qed simp_all

text \<open>
  C10.  For every topic tree and every starting identifier \<open>k\<close>, \<open>json_to_mermaid\<close>
  returns one declaration line per node of the subtree, and \<open>k\<close> plus the number of
  nodes as the next identifier.  The declared nodes are numbered \<open>k\<close>, \<open>k + 1\<close>, ...
  in the order of the lines, so the identifiers written on the lines are pairwise
  distinct; the subtrees of two siblings lie in one such render and share none.
\<close>

theorem json_to_mermaid_identifiers:
  "topic_tree node \<Longrightarrow>
   \<exists>ds. json_to_mermaid node parent_id k = Inr (map render_decl ds, k + count_nodes node) \<and>
        length ds = count_nodes node \<and>
        map decl_id ds = [k ..< k + count_nodes node] \<and>
        distinct (map (\<lambda>decl. node_name (decl_id decl)) ds)"
proof -
  assume "topic_tree node"
  then obtain ds where
    r: "json_to_mermaid node parent_id k = Inr (map render_decl ds, k + count_nodes node)"
    and i: "map decl_id ds = [k ..< k + count_nodes node]"
    using render_topic_trees(1) by blast
  from i have "length (map decl_id ds) = count_nodes node"
    by simp
  then have n: "length ds = count_nodes node"
    by simp
  have "distinct (map decl_id ds)"
    by (simp only: i distinct_upt)
  then have "distinct (map node_name (map decl_id ds))"
    using node_name_inj by (simp only: distinct_map) (auto intro: inj_on_subset)
  then have "distinct (map (\<lambda>decl. node_name (decl_id decl)) ds)"
    by (simp add: comp_def)
  with r n i show ?thesis
    by (intro exI conjI)
qed

lemma dummy_json_render:
  "json_to_mermaid dummy_json (Some ''node6'') 7 =
     Inr ([edge_decl ''node6'' ''node7'' ''Test Topic'',
           edge_decl ''node7'' ''node8'' ''Subtopic A'',
           edge_decl ''node7'' ''node9'' ''Subtopic B''], 10)"
  by (simp add: dummy_json_def Let_def sanitized_label_def label_value_def dict_get_def
      loop_children_def decl_line_def node_name_def str_nat_digit digit_char_def dq_def sq_def)

theorem json_to_mermaid_identifiers_witness:
  "topic_tree dummy_json \<and> count_nodes dummy_json = 3 \<and>
   json_to_mermaid dummy_json (Some ''node6'') 7 =
     Inr ([edge_decl ''node6'' ''node7'' ''Test Topic'',
           edge_decl ''node7'' ''node8'' ''Subtopic A'',
           edge_decl ''node7'' ''node9'' ''Subtopic B''], 10) \<and>
   (\<exists>ds. json_to_mermaid dummy_json (Some ''node6'') 7 = Inr (map render_decl ds, 10) \<and>
         length ds = 3 \<and> map decl_id ds = [7, 8, 9] \<and>
         distinct (map (\<lambda>decl. node_name (decl_id decl)) ds))"
proof -
  have t: "topic_tree dummy_json"
    by (simp add: dummy_json_def label_value_def dict_get_def)
  have c: "count_nodes dummy_json = 3"
    by (simp add: dummy_json_def)
  have u: "[7 ..< 7 + 3] = [7, 8, 9::nat]"
    by (simp add: upt_rec)
  from json_to_mermaid_identifiers [OF t, of "Some ''node6''" 7]
  have "\<exists>ds. json_to_mermaid dummy_json (Some ''node6'') 7 = Inr (map render_decl ds, 10) \<and>
         length ds = 3 \<and> map decl_id ds = [7, 8, 9] \<and>
         distinct (map (\<lambda>decl. node_name (decl_id decl)) ds)"
    unfolding c u by simp
  with t c dummy_json_render show ?thesis
    by (intro conjI)
qed

section \<open>A root with two children\<close>

lemma leaf_render:
  assumes "label_value d = JStr raw" and "loop_children d = Inr []"
  shows "json_to_mermaid (JObj d) parent_id node_id =
           Inr ([decl_line parent_id (node_name node_id) (py_replace [dq] [sq] raw)], node_id + 1)"
  using assms by (simp add: Let_def sanitized_label_def)

lemma node_name_not_Nil: "node_name k \<noteq> []"
  by (simp add: node_name_def)

text \<open>
  C6.  A root with exactly two children, both without children, renders to three
  lines, one declaration per node: the root on a line of its own as \<open>node0\<close>, then
  the two edge lines from \<open>node0\<close>, to \<open>node1\<close> for the first child and to \<open>node2\<close>
  for the second, in the order of the \<open>children\<close> list.  The identifiers are 0, 1, 2
  in pre-order, and 3 is the next free one.
\<close>

theorem json_to_mermaid_two_children:
  assumes "label_value d = JStr raw"
    and "loop_children d = Inr [JObj d1, JObj d2]"
    and "label_value d1 = JStr raw1" and "loop_children d1 = Inr []"
    and "label_value d2 = JStr raw2" and "loop_children d2 = Inr []"
  shows "json_to_mermaid (JObj d) None 0 =
           Inr ([node_decl (node_name 0) (py_replace [dq] [sq] raw),
                 edge_decl (node_name 0) (node_name 1) (py_replace [dq] [sq] raw1),
                 edge_decl (node_name 0) (node_name 2) (py_replace [dq] [sq] raw2)], 3) \<and>
         mermaid_lines (JObj d) =
           Inr [node_decl (node_name 0) (py_replace [dq] [sq] raw),
                edge_decl (node_name 0) (node_name 1) (py_replace [dq] [sq] raw1),
                edge_decl (node_name 0) (node_name 2) (py_replace [dq] [sq] raw2)] \<and>
         distinct [node_name 0, node_name 1, node_name 2]"
proof -
  have c1: "json_to_mermaid (JObj d1) (Some (node_name 0)) 1 =
            Inr ([edge_decl (node_name 0) (node_name 1) (py_replace [dq] [sq] raw1)], 2)"
    using leaf_render [OF assms(3,4), of "Some (node_name 0)" 1]
    by (simp add: decl_line_def node_name_not_Nil)
  have c2: "json_to_mermaid (JObj d2) (Some (node_name 0)) 2 =
            Inr ([edge_decl (node_name 0) (node_name 2) (py_replace [dq] [sq] raw2)], 3)"
    using leaf_render [OF assms(5,6), of "Some (node_name 0)" 2]
    by (simp add: decl_line_def node_name_not_Nil)
  have s: "sanitized_label d = Inr (py_replace [dq] [sq] raw)"
    using assms(1) by (simp add: sanitized_label_def)
  have r: "json_to_mermaid (JObj d) None 0 =
           Inr ([node_decl (node_name 0) (py_replace [dq] [sq] raw),
                 edge_decl (node_name 0) (node_name 1) (py_replace [dq] [sq] raw1),
                 edge_decl (node_name 0) (node_name 2) (py_replace [dq] [sq] raw2)], 3)"
    using s assms(2) c1 c2
    by (simp add: Let_def decl_line_def del: json_to_mermaid.simps(1))
       (simp add: Let_def decl_line_def)
  have i: "distinct [node_name 0, node_name 1, node_name 2]"
    by (simp add: inj_eq [OF node_name_inj])
  from r have "mermaid_lines (JObj d) =
           Inr [node_decl (node_name 0) (py_replace [dq] [sq] raw),
                edge_decl (node_name 0) (node_name 1) (py_replace [dq] [sq] raw1),
                edge_decl (node_name 0) (node_name 2) (py_replace [dq] [sq] raw2)]"
    by (simp add: mermaid_lines_def del: json_to_mermaid.simps)
  with r i show ?thesis
    by (intro conjI)
qed

lemma dummy_json_children:
  "label_value [(''root'', JStr ''Test Topic''),
      (''children'',
       JArr [JObj [(''name'', JStr ''Subtopic A''), (''children'', JArr [])],
             JObj [(''name'', JStr ''Subtopic B''), (''children'', JArr [])]])] =
     JStr ''Test Topic''"
  "loop_children [(''root'', JStr ''Test Topic''),
      (''children'',
       JArr [JObj [(''name'', JStr ''Subtopic A''), (''children'', JArr [])],
             JObj [(''name'', JStr ''Subtopic B''), (''children'', JArr [])]])] =
     Inr [JObj [(''name'', JStr ''Subtopic A''), (''children'', JArr [])],
          JObj [(''name'', JStr ''Subtopic B''), (''children'', JArr [])]]"
  "label_value [(''name'', JStr ''Subtopic A''), (''children'', JArr [])] = JStr ''Subtopic A''"
  "loop_children [(''name'', JStr ''Subtopic A''), (''children'', JArr [])] = Inr []"
  "label_value [(''name'', JStr ''Subtopic B''), (''children'', JArr [])] = JStr ''Subtopic B''"
  "loop_children [(''name'', JStr ''Subtopic B''), (''children'', JArr [])] = Inr []"
  by (simp_all add: label_value_def loop_children_def dict_get_def)

lemma dummy_json_names:
  "node_decl (node_name 0) (py_replace [dq] [sq] ''Test Topic'') =
     ''    node0['' @ [dq] @ ''Test Topic'' @ [dq] @ '']''"
  "edge_decl (node_name 0) (node_name 1) (py_replace [dq] [sq] ''Subtopic A'') =
     ''    node0 --> node1['' @ [dq] @ ''Subtopic A'' @ [dq] @ '']''"
  "edge_decl (node_name 0) (node_name 2) (py_replace [dq] [sq] ''Subtopic B'') =
     ''    node0 --> node2['' @ [dq] @ ''Subtopic B'' @ [dq] @ '']''"
  by (simp_all add: node_decl_def edge_decl_def node_name_def str_nat_digit digit_char_def
      py_replace_char dq_def sq_def)

theorem json_to_mermaid_two_children_witness:
  "mermaid_lines dummy_json =
     Inr [''    node0['' @ [dq] @ ''Test Topic'' @ [dq] @ '']'',
          ''    node0 --> node1['' @ [dq] @ ''Subtopic A'' @ [dq] @ '']'',
          ''    node0 --> node2['' @ [dq] @ ''Subtopic B'' @ [dq] @ '']'']"
proof -
  note r = json_to_mermaid_two_children [OF dummy_json_children]
  have "mermaid_lines dummy_json =
        Inr [node_decl (node_name 0) (py_replace [dq] [sq] ''Test Topic''),
             edge_decl (node_name 0) (node_name 1) (py_replace [dq] [sq] ''Subtopic A''),
             edge_decl (node_name 0) (node_name 2) (py_replace [dq] [sq] ''Subtopic B'')]"
    unfolding dummy_json_def by (rule conjunct1 [OF conjunct2 [OF r]])
  then show ?thesis
    by (simp only: dummy_json_names)
qed

section \<open>Labels with a double quote\<close>

text \<open>
  C7.  The line that declares a node carries the node's label with every double
  quote replaced by a single quote, so no double quote is left in it; and every line
  of the render is well quoted: the only double quotes on it are the one that opens
  the label and the one that closes it, before the closing bracket.  The parent
  identifier, \<open>None\<close> at the root and \<open>node\<close> with a number below it, has no double
  quote.
\<close>

theorem json_to_mermaid_sanitized:
  assumes "json_to_mermaid (JObj d) parent_id node_id = Inr (lines, next_id)"
    and "label_value d = JStr raw"
    and "quote_free parent_id"
  shows "(\<exists>more. lines =
            decl_line parent_id (node_name node_id)
              (map (\<lambda>c. if c = dq then sq else c) raw) # more) \<and>
         dq \<notin> set (map (\<lambda>c. if c = dq then sq else c) raw) \<and>
         (\<forall>line \<in> set lines. well_quoted line)"
proof (intro conjI)
  show "\<exists>more. lines =
          decl_line parent_id (node_name node_id)
            (map (\<lambda>c. if c = dq then sq else c) raw) # more"
    using json_to_mermaid_first_line [OF assms(1,2)] unfolding py_replace_char .
  show "dq \<notin> set (map (\<lambda>c. if c = dq then sq else c) raw)"
    using dq_notin_sanitized [of raw] unfolding py_replace_char .
  have "list_all well_quoted lines"
    using rendered_lines_well_quoted(1) assms(1,3) by blast
  then show "\<forall>line \<in> set lines. well_quoted line"
    by (simp only: list_all_iff)
qed

theorem json_to_mermaid_sanitized_witness:
  "json_to_mermaid (JObj [(''name'', JStr (''the '' @ [dq] @ ''stack'' @ [dq]))])
     (Some ''node0'') 1 =
     Inr ([''    node0 --> node1['' @ [dq] @ ''the '' @ [sq] @ ''stack'' @ [sq] @ [dq] @ '']''], 2) \<and>
   well_quoted (''    node0 --> node1['' @ [dq] @ ''the '' @ [sq] @ ''stack'' @ [sq] @ [dq] @ '']'')"
proof -
  let ?d = "[(''name'', JStr (''the '' @ [dq] @ ''stack'' @ [dq]))]"
  let ?line = "''    node0 --> node1['' @ [dq] @ ''the '' @ [sq] @ ''stack'' @ [sq] @ [dq] @ '']''"
  have r: "json_to_mermaid (JObj ?d) (Some ''node0'') 1 = Inr ([?line], 2)"
    by (simp add: Let_def sanitized_label_def label_value_def dict_get_def loop_children_def
        decl_line_def edge_decl_def node_name_def str_nat_digit digit_char_def dq_def sq_def)
  have l: "label_value ?d = JStr (''the '' @ [dq] @ ''stack'' @ [dq])"
    by (simp add: label_value_def dict_get_def)
  have q: "quote_free (Some ''node0'')"
    by (simp add: quote_free_def dq_def)
  from json_to_mermaid_sanitized [OF r l q] have "\<forall>line \<in> set [?line]. well_quoted line"
    by (rule conjunct2 [OF conjunct2])
  then have "well_quoted ?line"
    by simp
  with r show ?thesis
    by (intro conjI)
qed

end
